theory Spec2Isabelle
  imports
    Complex_Main
    "HOL-Library.Word"
    "HOL-Library.Char_ord"
    "HOL-Library.List_Lexorder"
begin

section \<open>Circuits\<close>

text \<open>
  Both scripts build a Qiskit \<^verbatim>\<open>QuantumCircuit\<close> by appending gates: \<^verbatim>\<open>qc.x(i)\<close>,
  \<^verbatim>\<open>qc.rz(phi, q)\<close>, \<^verbatim>\<open>qc.rx(theta, q)\<close>, \<^verbatim>\<open>qc.cx(a, b)\<close> and
  \<^verbatim>\<open>qc.measure(qubits, clbits)\<close>. A circuit is the list of the gates appended so far,
  the arguments in Qiskit's order. Python integers are \<open>int\<close>; the angles, Python floats
  in the source, are real numbers here.
\<close>

datatype gate =
    is_X: X int
  | is_RZ: RZ real int
  | is_RX: RX real int
  | is_CX: CX int int
  | is_Measure: Measure "int list" "int list"

type_synonym circuit = "gate list"

text \<open>\<^verbatim>\<open>range(start, stop, step)\<close> for a positive step.\<close>

definition py_range :: "int \<Rightarrow> int \<Rightarrow> int \<Rightarrow> int list" where
  "py_range start stop step = filter (\<lambda>q. (q - start) mod step = 0) [start..stop - 1]"

section \<open>The seeded generator\<close>

text \<open>
  \<^verbatim>\<open>np.random.default_rng(seed)\<close> is library code. A generator object is modelled by the
  sequence of the values its successive \<^verbatim>\<open>random()\<close> calls will return, and the library by
  the function \<open>numpy\<close> from a seed to the sequence of a freshly seeded generator; every
  function below takes \<open>numpy\<close> as a parameter. Generator objects are mutable and live on a
  heap: \<^verbatim>\<open>default_rng\<close> allocates a new object and \<^verbatim>\<open>rng.random()\<close> advances the object
  it is called on. The values are floats in the source and real numbers here. Whether
  the library accepts a seed is the library's matter (numpy rejects a negative one
  before a generator exists); \<open>numpy\<close> is total, and a statement for every seed is a
  statement for every sequence the library may give.
\<close>

type_synonym generator = "nat \<Rightarrow> real"

datatype heap = Heap (objs: "nat \<Rightarrow> generator") (fresh: nat)

definition default_rng :: "(int \<Rightarrow> generator) \<Rightarrow> int \<Rightarrow> heap \<Rightarrow> nat \<times> heap" where
  "default_rng numpy seed h =
     (fresh h, Heap ((objs h)(fresh h := numpy seed)) (Suc (fresh h)))"

definition rng_random :: "nat \<Rightarrow> heap \<Rightarrow> real \<times> heap" where
  "rng_random rng h =
     (objs h rng 0, Heap ((objs h)(rng := (\<lambda>k. objs h rng (Suc k)))) (fresh h))"

section \<open>The layer loop (both scripts)\<close>

text \<open>
  The body of \<^verbatim>\<open>for _ in range(depth)\<close> is the same text in
  \<^verbatim>\<open>IBM/rqc_hash_ibm.py\<close> (lines 83 to 96) and in
  \<^verbatim>\<open>microsft/rqc_hash_visual_notebook.py\<close> (lines 15 to 26):
  \<^verbatim>\<open>
    for q in range(n_qubits):
        theta = float(rng.random() * 2 * math.pi)
        phi   = float(rng.random() * 2 * math.pi)
        qc.rz(phi, q)
        qc.rx(theta, q)
    for q in range(0, n_qubits - 1, 2):
        qc.cx(q, q + 1)
    for q in range(1, n_qubits - 1, 2):
        qc.cx(q, q + 1)
    if n_qubits > 2:
        qc.cx(n_qubits - 1, 0)
  \<close>
  Each loop is a recursion over the list of its iterates, threading the circuit and the
  heap.
\<close>

fun rotations :: "nat \<Rightarrow> int list \<Rightarrow> circuit \<times> heap \<Rightarrow> circuit \<times> heap" where
  "rotations rng [] (qc, h) = (qc, h)"
| "rotations rng (q # qs) (qc, h) =
     (let (r1, h1) = rng_random rng h;
          theta = r1 * 2 * pi;
          (r2, h2) = rng_random rng h1;
          phi = r2 * 2 * pi
      in rotations rng qs ((qc @ [RZ phi q]) @ [RX theta q], h2))"

fun cx_pairs :: "int list \<Rightarrow> circuit \<Rightarrow> circuit" where
  "cx_pairs [] qc = qc"
| "cx_pairs (q # qs) qc = cx_pairs qs (qc @ [CX q (q + 1)])"

definition entangle :: "int \<Rightarrow> circuit \<Rightarrow> circuit" where
  "entangle n_qubits qc =
     (let qc1 = cx_pairs (py_range 0 (n_qubits - 1) 2) qc;
          qc2 = cx_pairs (py_range 1 (n_qubits - 1) 2) qc1
      in if n_qubits > 2 then qc2 @ [CX (n_qubits - 1) 0] else qc2)"

definition layer :: "int \<Rightarrow> nat \<Rightarrow> circuit \<times> heap \<Rightarrow> circuit \<times> heap" where
  "layer n_qubits rng st =
     (let (qc1, h1) = rotations rng (py_range 0 n_qubits 1) st
      in (entangle n_qubits qc1, h1))"

fun layers :: "int \<Rightarrow> nat \<Rightarrow> int list \<Rightarrow> circuit \<times> heap \<Rightarrow> circuit \<times> heap" where
  "layers n_qubits rng [] st = st"
| "layers n_qubits rng (l # ls) st = layers n_qubits rng ls (layer n_qubits rng st)"

section \<open>\<^verbatim>\<open>build_random_circuit\<close> of \<^verbatim>\<open>IBM/rqc_hash_ibm.py\<close>\<close>

text \<open>
  The message is a \<^verbatim>\<open>bytes\<close> object, a list of 8-bit values. The inner loop over
  \<^verbatim>\<open>range(8)\<close> leaves at \<^verbatim>\<open>break\<close>; the outer loop then goes on to the next byte.
\<close>

fun encode_byte :: "int \<Rightarrow> 8 word \<Rightarrow> nat list \<Rightarrow> int \<times> circuit \<Rightarrow> int \<times> circuit" where
  "encode_byte n_qubits b [] (bit_idx, qc) = (bit_idx, qc)"
| "encode_byte n_qubits b (i # is) (bit_idx, qc) =
     (if bit_idx \<ge> n_qubits then (bit_idx, qc)
      else encode_byte n_qubits b is
             (bit_idx + 1, if and (drop_bit i b) 1 = 1 then qc @ [X bit_idx] else qc))"

fun encode_bytes :: "int \<Rightarrow> 8 word list \<Rightarrow> int \<times> circuit \<Rightarrow> int \<times> circuit" where
  "encode_bytes n_qubits [] st = st"
| "encode_bytes n_qubits (b # bs) st =
     encode_bytes n_qubits bs (encode_byte n_qubits b [0..<8] st)"

definition build_random_circuit ::
  "(int \<Rightarrow> generator) \<Rightarrow> heap \<Rightarrow> int \<Rightarrow> int \<Rightarrow> int \<Rightarrow> 8 word list \<Rightarrow> circuit \<times> heap" where
  "build_random_circuit numpy h n_qubits depth seed message =
     (let (rng, h0) = default_rng numpy seed h;
          qc0 = [];
          (bit_idx, qc1) = encode_bytes n_qubits message (0, qc0);
          (qc2, h1) = layers n_qubits rng (py_range 0 depth 1) (qc1, h0);
          qc3 = qc2 @ [Measure (py_range 0 n_qubits 1) (py_range 0 n_qubits 1)]
      in (qc3, h1))"

section \<open>\<^verbatim>\<open>build_random_circuit\<close> and \<^verbatim>\<open>encode_message\<close> of the notebook script\<close>

definition nb_build_random_circuit ::
  "(int \<Rightarrow> generator) \<Rightarrow> heap \<Rightarrow> int \<Rightarrow> int \<Rightarrow> int \<Rightarrow> circuit \<times> heap" where
  "nb_build_random_circuit numpy h n_qubits depth seed =
     (let (rng, h0) = default_rng numpy seed h;
          qc0 = []
      in layers n_qubits rng (py_range 0 depth 1) (qc0, h0))"

definition message_bits :: "8 word list \<Rightarrow> 8 word list" where
  "message_bits msg_bytes =
     concat (map (\<lambda>b. map (\<lambda>i. and (drop_bit i b) 1) [0..<8]) msg_bytes)"

fun set_bits :: "int \<Rightarrow> (nat \<times> 8 word) list \<Rightarrow> circuit \<Rightarrow> circuit" where
  "set_bits n_qubits [] qc = qc"
| "set_bits n_qubits ((i, b) # rest) qc =
     (if int i \<ge> n_qubits then qc
      else set_bits n_qubits rest (if b \<noteq> 0 then qc @ [X (int i)] else qc))"

definition encode_message :: "8 word list \<Rightarrow> int \<Rightarrow> circuit" where
  "encode_message msg_bytes n_qubits =
     (let qc = [];
          bits = message_bits msg_bytes
      in set_bits n_qubits (enumerate 0 bits) qc)"

section \<open>The digest: \<^verbatim>\<open>most_frequent_bitstring\<close> and \<^verbatim>\<open>to_hash_hex\<close>\<close>

text \<open>
  A counts dictionary is the list of its items in iteration order, the keys distinct.
  \<^verbatim>\<open>max(counts.items(), key=lambda kv: kv[1])\<close> walks the items in that order and keeps
  the item seen so far with the greatest count; a later item replaces it only when its
  count is strictly greater.
\<close>

type_synonym counts = "(string \<times> int) list"

datatype exn = ValueError | RuntimeError string | RemoteError string

fun max_by_count :: "string \<times> int \<Rightarrow> counts \<Rightarrow> string \<times> int" where
  "max_by_count best [] = best"
| "max_by_count best (kv # rest) =
     max_by_count (if snd kv > snd best then kv else best) rest"

definition most_frequent_bitstring :: "counts \<Rightarrow> string" where
  "most_frequent_bitstring counts =
     (case counts of [] \<Rightarrow> [] | kv # rest \<Rightarrow> fst (max_by_count kv rest))"

text \<open>
  \<^verbatim>\<open>int(s, 2)\<close> on a string of binary digits. The keys of a counts dictionary over one
  classical register are such strings. Python's parser also accepts surrounding white
  space, a sign, a \<^verbatim>\<open>0b\<close> prefix and single underscores between digits; those forms are
  not modelled, and every string that is not a non-empty string of the digits 0 and 1 is
  reported as \<open>ValueError\<close>.
\<close>

definition is_binary_digit :: "char \<Rightarrow> bool" where
  "is_binary_digit c = (c = CHR ''0'' \<or> c = CHR ''1'')"

definition int_base2 :: "string \<Rightarrow> exn + nat" where
  "int_base2 s =
     (if s \<noteq> [] \<and> list_all is_binary_digit s
      then Inr (foldl (\<lambda>acc c. 2 * acc + (if c = CHR ''1'' then 1 else 0)) 0 s)
      else Inl ValueError)"

text \<open>
  The format specification \<^verbatim>\<open>0{width}x\<close> applied to a non-negative integer: lowercase
  hexadecimal, padded with zeros on the left up to \<open>width\<close> characters, never cut. A
  negative width gives the specification \<^verbatim>\<open>0-1x\<close>, which Python rejects.
\<close>

definition hex_digit :: "nat \<Rightarrow> char" where
  "hex_digit d = ''0123456789abcdef'' ! d"

fun hex_digits :: "nat \<Rightarrow> string" where
  "hex_digits v =
     (if v < 16 then [hex_digit v] else hex_digits (v div 16) @ [hex_digit (v mod 16)])"

declare hex_digits.simps [simp del]

definition format_0x :: "int \<Rightarrow> nat \<Rightarrow> exn + string" where
  "format_0x width val =
     (if width < 0 then Inl ValueError
      else Inr (replicate (nat width - length (hex_digits val)) CHR ''0'' @ hex_digits val))"

text \<open>
  \<^verbatim>\<open>math.ceil(n_qubits/4)\<close> is the ceiling of the quotient; the float division is exact
  for every qubit count below \<open>2 ^ 53\<close>.
\<close>

definition to_hash_hex :: "string \<Rightarrow> int \<Rightarrow> exn + string" where
  "to_hash_hex bitstr_msb_lsb n_qubits =
     (if bitstr_msb_lsb = [] then Inr []
      else case int_base2 (rev bitstr_msb_lsb) of
             Inl e \<Rightarrow> Inl e
           | Inr val \<Rightarrow> format_0x \<lceil>real_of_int n_qubits / 4\<rceil> val)"

text \<open>
  Lines 217 and 218 of \<^verbatim>\<open>main\<close>: the most frequent bitstring and its digest.
\<close>

definition collapse :: "counts \<Rightarrow> int \<Rightarrow> exn + string \<times> string" where
  "collapse counts n =
     (let top = most_frequent_bitstring counts
      in case to_hash_hex top n of
           Inl e \<Rightarrow> Inl e
         | Inr hhex \<Rightarrow> Inr (top, hhex))"

section \<open>Choosing the backend in \<^verbatim>\<open>main\<close>\<close>

text \<open>
  The module-level flags \<^verbatim>\<open>_runtime_available\<close>, \<^verbatim>\<open>_backend_mode\<close> and
  \<^verbatim>\<open>_aer_available\<close> are set once at import. What the Qiskit calls inside
  \<^verbatim>\<open>run_on_aer\<close>, \<^verbatim>\<open>run_on_ibm_provider\<close> and \<^verbatim>\<open>run_on_ibm_runtime\<close> return or
  raise is outside the repository: the three \<open>job\<close> fields give the outcome of each, an
  exception or a counts dictionary.
\<close>

record backends =
  runtime_available :: bool
  backend_mode :: "string option"
  aer_available :: bool
  aer_job :: "circuit \<Rightarrow> int \<Rightarrow> exn + counts"
  provider_job :: "circuit \<Rightarrow> string \<Rightarrow> int \<Rightarrow> exn + counts"
  runtime_job :: "circuit \<Rightarrow> string \<Rightarrow> int \<Rightarrow> int \<Rightarrow> exn + counts"

definition run_on_aer :: "backends \<Rightarrow> circuit \<Rightarrow> int \<Rightarrow> exn + counts" where
  "run_on_aer env qc shots =
     (if \<not> aer_available env
      then Inl (RuntimeError ''Aer not available. Install with: pip install qiskit-aer'')
      else aer_job env qc shots)"

definition run_on_ibm_provider :: "backends \<Rightarrow> circuit \<Rightarrow> string \<Rightarrow> int \<Rightarrow> exn + counts" where
  "run_on_ibm_provider env qc backend_name shots = provider_job env qc backend_name shots"

definition run_on_ibm_runtime ::
  "backends \<Rightarrow> circuit \<Rightarrow> string \<Rightarrow> int \<Rightarrow> int \<Rightarrow> exn + counts" where
  "run_on_ibm_runtime env qc backend_name shots resilience =
     runtime_job env qc backend_name shots resilience"

text \<open>\<^verbatim>\<open>str\<close> of an integer, for the f-string that names the runtime mode.\<close>

fun dec_digits :: "nat \<Rightarrow> string" where
  "dec_digits v =
     (if v < 10 then [''0123456789'' ! v]
      else dec_digits (v div 10) @ [''0123456789'' ! (v mod 10)])"

declare dec_digits.simps [simp del]

definition str_int :: "int \<Rightarrow> string" where
  "str_int i = (if i < 0 then CHR ''-'' # dec_digits (nat (- i)) else dec_digits (nat i))"

text \<open>
  The lines \<^verbatim>\<open>main\<close> prints while it chooses, and lines 190 to 215 in three steps. Each
  step returns the lines printed so far and either the exception that left \<^verbatim>\<open>main\<close> or
  the state of \<^verbatim>\<open>used\<close>: \<open>None\<close> while it is \<^verbatim>\<open>False\<close>, the counts and the mode string
  once a backend has answered. \<open>backend_name\<close> is \<^verbatim>\<open>args.backend.strip()\<close>.
\<close>

datatype line = Runtime_failed exn | Provider_not_available | Warning_using_aer

type_synonym answer = "counts \<times> string"

definition try_runtime ::
  "backends \<Rightarrow> circuit \<Rightarrow> string \<Rightarrow> string \<Rightarrow> int \<Rightarrow> int \<Rightarrow> line list \<times> answer option" where
  "try_runtime env qc backend_name runtime_mode shots resilience =
     (if runtime_mode \<in> set [''auto'', ''cloud''] \<and> runtime_available env then
        (case run_on_ibm_runtime env qc backend_name shots resilience of
           Inr counts \<Rightarrow>
             ([], Some (counts,
                ''IBM Runtime (backend='' @ backend_name @ '', resilience=''
                  @ str_int resilience @ '')''))
         | Inl e \<Rightarrow> ([Runtime_failed e], None))
      else ([], None))"

definition try_provider ::
  "backends \<Rightarrow> circuit \<Rightarrow> string \<Rightarrow> string \<Rightarrow> int \<Rightarrow> line list \<times> answer option
     \<Rightarrow> line list \<times> (exn + answer option)" where
  "try_provider env qc backend_name runtime_mode shots st =
     (case st of (out, used) \<Rightarrow>
        if used = None \<and>
           (runtime_mode \<in> set [''auto'', ''provider'', ''cloud''] \<or> runtime_mode = ''provider'')
        then
          if backend_mode env = Some ''provider'' then
            (case run_on_ibm_provider env qc backend_name shots of
               Inl e \<Rightarrow> (out, Inl e)
             | Inr counts \<Rightarrow>
                 (out, Inr (Some (counts, ''IBM Provider (backend='' @ backend_name @ '')''))))
          else (out @ [Provider_not_available], Inr None)
        else (out, Inr used))"

definition last_resort ::
  "backends \<Rightarrow> circuit \<Rightarrow> int \<Rightarrow> line list \<times> answer option \<Rightarrow> line list \<times> (exn + answer)" where
  "last_resort env qc shots st =
     (case st of
        (out, Some a) \<Rightarrow> (out, Inr a)
      | (out, None) \<Rightarrow>
          (case run_on_aer env qc shots of
             Inl e \<Rightarrow> (out @ [Warning_using_aer], Inl e)
           | Inr counts \<Rightarrow> (out @ [Warning_using_aer], Inr (counts, ''Aer simulator''))))"

definition main_execute ::
  "backends \<Rightarrow> circuit \<Rightarrow> string \<Rightarrow> string \<Rightarrow> int \<Rightarrow> int \<Rightarrow> line list \<times> (exn + answer)" where
  "main_execute env qc backend_name runtime_mode shots resilience =
     (if backend_name = [] then
        (case run_on_aer env qc shots of
           Inl e \<Rightarrow> ([], Inl e)
         | Inr counts \<Rightarrow> ([], Inr (counts, ''Aer simulator'')))
      else
        (case try_provider env qc backend_name runtime_mode shots
                (try_runtime env qc backend_name runtime_mode shots resilience) of
           (out, Inl e) \<Rightarrow> (out, Inl e)
         | (out, Inr used) \<Rightarrow> last_resort env qc shots (out, used)))"

text \<open>
  An installation for the worked example: the provider package is importable, the runtime
  package is not, the provider's job fails and the Aer simulator is present and answers.
\<close>

definition provider_down :: backends where
  "provider_down =
     \<lparr>runtime_available = False,
      backend_mode = Some ''provider'',
      aer_available = True,
      aer_job = (\<lambda>qc shots. Inr [(''0'', shots)]),
      provider_job = (\<lambda>qc name shots. Inl (RemoteError ''no account'')),
      runtime_job = (\<lambda>qc name shots resilience. Inl (RemoteError ''no account''))\<rparr>"

section \<open>Auxiliary functions for the proofs\<close>

text \<open>
  The gates of one rotation block and of a run of layers, as functions of the sequence
  the generator still has to return.
\<close>

fun rot_ops :: "generator \<Rightarrow> int list \<Rightarrow> circuit" where
  "rot_ops g [] = []"
| "rot_ops g (q # qs) =
     [RZ (g 1 * 2 * pi) q, RX (g 0 * 2 * pi) q] @ rot_ops (\<lambda>k. g (k + 2)) qs"

fun layer_ops :: "int \<Rightarrow> generator \<Rightarrow> int list \<Rightarrow> circuit" where
  "layer_ops n g [] = []"
| "layer_ops n g (l # ls) =
     rot_ops g [0..n - 1] @ entangle n [] @ layer_ops n (\<lambda>k. g (k + 2 * nat n)) ls"

text \<open>
  Both encoders walk a list of bits with a running index and stop at the first index that
  is not below the qubit count.
\<close>

fun put_bits :: "int \<Rightarrow> bool list \<Rightarrow> int \<times> circuit \<Rightarrow> int \<times> circuit" where
  "put_bits n [] st = st"
| "put_bits n (x # xs) (idx, qc) =
     (if idx \<ge> n then (idx, qc)
      else put_bits n xs (idx + 1, if x then qc @ [X idx] else qc))"

definition bits_of :: "8 word list \<Rightarrow> bool list" where
  "bits_of msg = concat (map (\<lambda>b. map (bit b) [0..<8]) msg)"

text \<open>A sequence and a heap for the worked examples.\<close>

definition sample_numpy :: "int \<Rightarrow> generator" where
  "sample_numpy seed k = 1 / (real k + 2)"

definition empty_heap :: heap where
  "empty_heap = Heap (\<lambda>a k. 0) 0"

text \<open>
  The indices below the qubit count, in ascending order, of the message bits that are 1:
  bit \<open>i\<close> of the message is bit \<open>i mod 8\<close>, counted from the least significant, of byte
  \<open>i div 8\<close>.
\<close>

definition one_positions :: "8 word list \<Rightarrow> int \<Rightarrow> nat list" where
  "one_positions msg n =
     filter (\<lambda>i. bit (msg ! (i div 8)) (i mod 8)) [0..<min (nat n) (8 * length msg)]"

text \<open>The qubit and classical-bit indices a gate refers to, and its angles.\<close>

fun gate_qubits :: "gate \<Rightarrow> int list" where
  "gate_qubits (X q) = [q]"
| "gate_qubits (RZ a q) = [q]"
| "gate_qubits (RX a q) = [q]"
| "gate_qubits (CX c t) = [c, t]"
| "gate_qubits (Measure qs cs) = qs @ cs"

fun angles :: "gate \<Rightarrow> real list" where
  "angles (RZ a q) = [a]"
| "angles (RX a q) = [a]"
| "angles g = []"

text \<open>
  The number a list of digits denotes in base \<open>b\<close>, the most significant digit first; the
  value of a binary digit and of a lowercase hexadecimal digit.
\<close>

definition positional :: "nat \<Rightarrow> nat list \<Rightarrow> nat" where
  "positional b ds = (\<Sum>i<length ds. ds ! i * b ^ (length ds - Suc i))"

definition binary_digit_value :: "char \<Rightarrow> nat" where
  "binary_digit_value c = (if c = CHR ''1'' then 1 else 0)"

definition hex_digit_value :: "char \<Rightarrow> nat" where
  "hex_digit_value c = length (takeWhile (\<lambda>x. x \<noteq> c) ''0123456789abcdef'')"

definition is_hex_digit :: "char \<Rightarrow> bool" where
  "is_hex_digit c = (c \<in> set ''0123456789abcdef'')"

section \<open>The circuit as a function of the seeded sequence\<close>

lemma cx_pairs_append: "cx_pairs qs qc = qc @ map (\<lambda>q. CX q (q + 1)) qs"
  by (induction qs arbitrary: qc) simp_all

lemma entangle_append: "entangle n qc = qc @ entangle n []"
  by (simp add: entangle_def cx_pairs_append Let_def)

lemma py_range_step1: "py_range 0 n 1 = [0..n - 1]"
  by (simp add: py_range_def)

lemma rotations_eq:
  "rotations a qs (qc, h) =
     (qc @ rot_ops (objs h a) qs,
      Heap ((objs h)(a := (\<lambda>k. objs h a (k + 2 * length qs)))) (fresh h))"
proof (induction qs arbitrary: qc h)
  case Nil
  then show ?case by simp
next
  case (Cons q qs)
  show ?case
    by (simp add: rng_random_def Cons.IH fun_eq_iff)
qed

lemma layer_eq:
  "layer n a (qc, h) =
     (qc @ rot_ops (objs h a) [0..n - 1] @ entangle n [],
      Heap ((objs h)(a := (\<lambda>k. objs h a (k + 2 * nat n)))) (fresh h))"
  using entangle_append [of n "qc @ rot_ops (objs h a) [0..n - 1]"]
  by (simp add: layer_def rotations_eq py_range_step1)

lemma layers_eq:
  "layers n a ls (qc, h) =
     (qc @ layer_ops n (objs h a) ls,
      Heap ((objs h)(a := (\<lambda>k. objs h a (k + 2 * nat n * length ls)))) (fresh h))"
proof (induction ls arbitrary: qc h)
  case Nil
  then show ?case by simp
next
  case (Cons l ls)
  show ?case
    by (simp add: layer_eq Cons.IH fun_eq_iff algebra_simps)
qed

lemma nb_build_fst:
  "fst (nb_build_random_circuit numpy h n depth seed) = layer_ops n (numpy seed) [0..depth - 1]"
  by (simp add: nb_build_random_circuit_def default_rng_def layers_eq py_range_step1)

lemma build_fst:
  "fst (build_random_circuit numpy h n depth seed message) =
     snd (encode_bytes n message (0, [])) @ layer_ops n (numpy seed) [0..depth - 1]
       @ [Measure [0..n - 1] [0..n - 1]]"
  by (simp add: build_random_circuit_def default_rng_def layers_eq py_range_step1 split: prod.splits)


lemma rot_ops_nth:
  "rot_ops g qs =
     concat (map (\<lambda>i. [RZ (g (2 * i + 1) * 2 * pi) (qs ! i), RX (g (2 * i) * 2 * pi) (qs ! i)])
       [0..<length qs])"
proof (induction qs arbitrary: g)
  case Nil
  then show ?case by simp
next
  case (Cons q qs)
  have "[0..<length (q # qs)] = 0 # map Suc [0..<length qs]"
    by (simp only: length_Cons upt_conv_Cons [OF zero_less_Suc] map_Suc_upt)
  then show ?case
    by (simp add: Cons.IH comp_def)
qed

lemma rot_ops_upto:
  "rot_ops g [0..n - 1] =
     concat (map (\<lambda>i. [RZ (g (2 * i + 1) * 2 * pi) (int i), RX (g (2 * i) * 2 * pi) (int i)])
       [0..<nat n])"
  unfolding rot_ops_nth
  by (rule arg_cong [where f = concat], rule map_cong) (simp_all add: nth_upto)

lemma layer_ops_closed:
  "layer_ops n g ls =
     concat (map (\<lambda>l.
         concat (map (\<lambda>i. [RZ (g (2 * (l * nat n + i) + 1) * 2 * pi) (int i),
                            RX (g (2 * (l * nat n + i)) * 2 * pi) (int i)]) [0..<nat n])
         @ entangle n [])
       [0..<length ls])"
proof (induction ls arbitrary: g)
  case Nil
  then show ?case by simp
next
  case (Cons l ls)
  have "[0..<length (l # ls)] = 0 # map Suc [0..<length ls]"
    by (simp only: length_Cons upt_conv_Cons [OF zero_less_Suc] map_Suc_upt)
  then show ?case
    by (simp add: Cons.IH rot_ops_upto comp_def algebra_simps)
qed

section \<open>The encoders as one walk over the message bits\<close>

lemma bit_test_eq_1: "(and (drop_bit i b) 1 = 1) = bit b i" for b :: "8 word"
  by (rule bit_iff_and_drop_bit_eq_1 [symmetric])

lemma bit_test_neq_0: "(and (drop_bit i b) 1 \<noteq> 0) = bit b i" for b :: "8 word"
  by (simp add: and_one_eq bit_iff_odd_drop_bit odd_iff_mod_2_eq_one)

lemma encode_byte_put_bits: "encode_byte n b is st = put_bits n (map (bit b) is) st"
proof (induction "is" arbitrary: st)
  case Nil
  then show ?case by (cases st) simp
next
  case (Cons i "is")
  then show ?case by (cases st) (simp add: bit_test_eq_1)
qed

lemma put_bits_full: "idx \<ge> n \<Longrightarrow> put_bits n xs (idx, qc) = (idx, qc)"
  by (cases xs) simp_all

lemma put_bits_append: "put_bits n (xs @ ys) st = put_bits n ys (put_bits n xs st)"
proof (induction xs arbitrary: st)
  case Nil
  then show ?case by simp
next
  case (Cons x xs)
  then show ?case by (cases st) (simp add: put_bits_full)
qed

lemma encode_bytes_put_bits: "encode_bytes n msg st = put_bits n (bits_of msg) st"
  by (induction msg arbitrary: st) (simp_all add: bits_of_def encode_byte_put_bits put_bits_append)

lemma set_bits_put_bits:
  "set_bits n (enumerate k bits) qc = snd (put_bits n (map (\<lambda>w. w \<noteq> 0) bits) (int k, qc))"
proof (induction bits arbitrary: k qc)
  case Nil
  then show ?case by simp
next
  case (Cons w bits)
  show ?case by (simp add: Cons.IH add.commute)
qed

lemma message_bits_bits_of: "map (\<lambda>w. w \<noteq> 0) (message_bits msg) = bits_of msg"
  by (simp add: message_bits_def bits_of_def map_concat comp_def bit_test_neq_0)

lemma put_bits_closed:
  "snd (put_bits n xs (idx, qc)) =
     qc @ map (\<lambda>i. X (idx + int i)) (filter (\<lambda>i. xs ! i) [0..<min (nat (n - idx)) (length xs)])"
proof (induction xs arbitrary: idx qc)
  case Nil
  then show ?case by simp
next
  case (Cons x xs)
  show ?case
  proof (cases "idx \<ge> n")
    case True
    then show ?thesis by simp
  next
    case False
    then have "min (nat (n - idx)) (length (x # xs)) = Suc (min (nat (n - (idx + 1))) (length xs))"
      by (simp add: min_def) linarith
    then have upt: "[0..<min (nat (n - idx)) (length (x # xs))] =
                 0 # map Suc [0..<min (nat (n - (idx + 1))) (length xs)]"
      by (simp only: upt_conv_Cons [OF zero_less_Suc] map_Suc_upt)
    show ?thesis
      using False by (simp only: upt put_bits.simps if_False snd_conv Cons.IH)
        (simp add: filter_map comp_def add.assoc)
  qed
qed

lemma length_bits_of: "length (bits_of msg) = 8 * length msg"
  by (induction msg) (simp_all add: bits_of_def)

lemma bits_of_Cons: "bits_of (b # msg) = map (bit b) [0..<8] @ bits_of msg"
  by (simp add: bits_of_def)

lemma bits_of_nth: "i < 8 * length msg \<Longrightarrow> bits_of msg ! i = bit (msg ! (i div 8)) (i mod 8)"
proof (induction msg arbitrary: i)
  case Nil
  then show ?case by simp
next
  case (Cons b msg)
  show ?case
  proof (cases "i < 8")
    case True
    then show ?thesis
      unfolding bits_of_Cons by (simp add: nth_append del: upt_Suc)
  next
    case False
    then obtain j where i: "i = 8 + j"
      using le_Suc_ex [of 8 i] by auto
    then have "j < 8 * length msg"
      using Cons.prems by simp
    then have "bits_of msg ! j = bit (msg ! (j div 8)) (j mod 8)"
      by (rule Cons.IH)
    then show ?thesis
      unfolding bits_of_Cons i by (simp add: nth_append del: upt_Suc)
  qed
qed

lemma put_bits_one_positions:
  "snd (put_bits n (bits_of msg) (0, [])) = map (\<lambda>i. X (int i)) (one_positions msg n)"
proof -
  have "filter (\<lambda>i. bits_of msg ! i) [0..<min (nat n) (8 * length msg)] = one_positions msg n"
    unfolding one_positions_def by (rule filter_cong) (simp_all add: bits_of_nth)
  then show ?thesis
    by (simp add: put_bits_closed length_bits_of)
qed

lemma encode_message_eq: "encode_message msg n = map (\<lambda>i. X (int i)) (one_positions msg n)"
  using put_bits_one_positions [of n msg]
  by (simp add: encode_message_def set_bits_put_bits message_bits_bits_of)

lemma encode_bytes_eq:
  "snd (encode_bytes n msg (0, [])) = map (\<lambda>i. X (int i)) (one_positions msg n)"
  by (simp add: encode_bytes_put_bits put_bits_one_positions)

lemma filter_X_rot_ops: "filter is_X (rot_ops g qs) = []"
  by (induction qs arbitrary: g) simp_all

lemma filter_X_entangle: "filter is_X (entangle n []) = []"
  by (auto simp add: entangle_def cx_pairs_append Let_def filter_empty_conv)

lemma filter_X_layer_ops: "filter is_X (layer_ops n g ls) = []"
  by (induction ls arbitrary: g) (simp_all add: filter_X_rot_ops filter_X_entangle)

lemma build_empty_message:
  "fst (build_random_circuit numpy h n depth seed []) =
     layer_ops n (numpy seed) [0..depth - 1] @ [Measure [0..n - 1] [0..n - 1]]"
  by (simp add: build_fst)

lemma one_positions_Nil: "one_positions [] n = []"
  by (simp add: one_positions_def)

lemma build_split:
  "fst (build_random_circuit numpy h n depth seed msg) =
     map (\<lambda>i. X (int i)) (one_positions msg n) @ fst (build_random_circuit numpy h' n depth seed [])"
  by (simp add: build_fst encode_bytes_eq)

lemma ex1: "one_positions [0x01] 8 = [0]" by code_simp
lemma ex2: "one_positions [0x80] 8 = [7]" by code_simp
lemma ex3: "one_positions [0xFF, 0xFF] 4 = [0, 1, 2, 3]" by code_simp
section \<open>Shape of the IBM circuit and qubit indices\<close>

lemma filter_not_X_positions: "filter (\<lambda>g. \<not> is_X g) (map (\<lambda>i. X (int i)) ps) = []"
  by (induction ps) simp_all

lemma qubits_rot_ops:
  "list_all (\<lambda>q. 0 \<le> q \<and> q < n) qs \<Longrightarrow>
   list_all (\<lambda>q. 0 \<le> q \<and> q < n) (concat (map gate_qubits (rot_ops g qs)))"
  by (induction qs arbitrary: g) simp_all

lemma qubits_entangle:
  "list_all (\<lambda>q. 0 \<le> q \<and> q < n) (concat (map gate_qubits (entangle n [])))"
  by (auto simp add: entangle_def cx_pairs_append Let_def py_range_def list_all_iff)

lemma qubits_upto: "list_all (\<lambda>q. 0 \<le> q \<and> q < n) [0..n - 1]"
  by (simp add: list_all_iff)

lemma qubits_layer_ops:
  "list_all (\<lambda>q. 0 \<le> q \<and> q < n) (concat (map gate_qubits (layer_ops n g ls)))"
  by (induction ls arbitrary: g) (simp_all add: qubits_rot_ops qubits_entangle qubits_upto)

lemma qubits_positions:
  "list_all (\<lambda>q. 0 \<le> q \<and> q < n) (concat (map gate_qubits (map (\<lambda>i. X (int i)) (one_positions msg n))))"
  by (auto simp add: list_all_iff one_positions_def)

section \<open>Entangling gates and angles of the layers\<close>

lemma filter_CX_rot_ops: "filter is_CX (rot_ops g qs) = []"
  by (induction qs arbitrary: g) simp_all

lemma filter_CX_positions: "filter is_CX (map (\<lambda>i. X (int i)) ps) = []"
  by (induction ps) simp_all

lemma entangle_2: "entangle 2 [] = [CX 0 1]"
  by (simp add: entangle_def py_range_def upto.simps)

lemma entangle_3: "entangle 3 [] = [CX 0 1, CX 1 2, CX 2 0]"
  by (simp add: entangle_def py_range_def upto.simps)

lemma angles_rot_ops:
  "(\<forall>k. 0 \<le> g k \<and> g k < 1) \<Longrightarrow>
   list_all (\<lambda>a. 0 \<le> a \<and> a < 2 * pi) (concat (map angles (rot_ops g qs)))"
  by (induction qs arbitrary: g) simp_all

lemma angles_entangle: "concat (map angles (entangle n [])) = []"
  by (auto simp add: entangle_def cx_pairs_append Let_def)

lemma angles_layer_ops:
  "(\<forall>k. 0 \<le> g k \<and> g k < 1) \<Longrightarrow>
   list_all (\<lambda>a. 0 \<le> a \<and> a < 2 * pi) (concat (map angles (layer_ops n g ls)))"
  by (induction ls arbitrary: g) (simp_all add: angles_rot_ops angles_entangle)

lemma sample_range: "0 \<le> sample_numpy s k \<and> sample_numpy s k < 1"
  by (simp add: sample_numpy_def)

section \<open>Binary parsing and hexadecimal formatting\<close>

lemma positional_Nil: "positional b [] = 0"
  by (simp add: positional_def)

lemma positional_snoc: "positional b (ds @ [x]) = b * positional b ds + x"
proof -
  have "(\<Sum>i<length ds. (ds @ [x]) ! i * b ^ (Suc (length ds) - Suc i)) =
        (\<Sum>i<length ds. b * (ds ! i * b ^ (length ds - Suc i)))"
  proof (rule sum.cong)
    fix i assume "i \<in> {..<length ds}"
    then have i: "i < length ds" by simp
    then have "Suc (length ds) - Suc i = Suc (length ds - Suc i)" by simp
    then show "(ds @ [x]) ! i * b ^ (Suc (length ds) - Suc i) = b * (ds ! i * b ^ (length ds - Suc i))"
      using i by (simp add: nth_append)
  qed simp
  then show ?thesis
    by (simp add: positional_def sum_distrib_left)
qed

lemma positional_zero_Cons: "positional b (0 # ds) = positional b ds"
proof -
  have "(\<Sum>i<Suc (length ds). (0 # ds) ! i * b ^ (Suc (length ds) - Suc i)) =
        (0 # ds) ! 0 * b ^ (Suc (length ds) - Suc 0) +
        (\<Sum>i<length ds. (0 # ds) ! Suc i * b ^ (Suc (length ds) - Suc (Suc i)))"
    by (rule sum.lessThan_Suc_shift)
  then show ?thesis
    by (simp add: positional_def del: sum.lessThan_Suc)
qed

lemma positional_zeros: "positional b (replicate k 0 @ ds) = positional b ds"
  by (induction k) (simp_all add: positional_zero_Cons)

lemma foldl_binary:
  "foldl (\<lambda>acc c. 2 * acc + (if c = CHR ''1'' then 1 else 0)) 0 t =
     positional 2 (map binary_digit_value t)"
  by (induction t rule: rev_induct) (simp_all add: positional_Nil positional_snoc binary_digit_value_def)

lemma positional_binary_less: "positional 2 (map binary_digit_value t) < 2 ^ length t"
  by (induction t rule: rev_induct) (simp_all add: positional_Nil positional_snoc binary_digit_value_def)

lemma hex_digit_table:
  "list_all (\<lambda>d. hex_digit_value (hex_digit d) = d \<and> is_hex_digit (hex_digit d)
      \<and> (hex_digit d = CHR ''0'') = (d = 0)) [0..<16]"
  by code_simp

lemma hex_digit_props:
  assumes "d < 16"
  shows "hex_digit_value (hex_digit d) = d" "is_hex_digit (hex_digit d)"
    "(hex_digit d = CHR ''0'') = (d = 0)"
  using hex_digit_table assms by (simp_all add: list_all_iff)

lemma hex_digits_nonempty: "hex_digits v \<noteq> []"
  by (subst hex_digits.simps) simp

lemma positional_hex_digits: "positional 16 (map hex_digit_value (hex_digits v)) = v"
proof (induction v rule: hex_digits.induct)
  case (1 v)
  show ?case
  proof (cases "v < 16")
    case True
    then show ?thesis
      using positional_snoc [of 16 "[]" v]
      by (subst hex_digits.simps) (simp add: hex_digit_props positional_Nil)
  next
    case False
    then show ?thesis
      using "1.IH"
      by (subst hex_digits.simps) (simp add: hex_digit_props positional_snoc)
  qed
qed

lemma hex_digits_chars: "list_all is_hex_digit (hex_digits v)"
proof (induction v rule: hex_digits.induct)
  case (1 v)
  then show ?case
    by (subst hex_digits.simps) (simp add: hex_digit_props)
qed

lemma hex_digits_length: "0 < w \<Longrightarrow> v < 16 ^ w \<Longrightarrow> length (hex_digits v) \<le> w"
proof (induction v arbitrary: w rule: hex_digits.induct)
  case (1 v)
  show ?case
  proof (cases "v < 16")
    case True
    then show ?thesis
      using "1.prems" by (subst hex_digits.simps) simp
  next
    case False
    then obtain w' where w: "w = Suc w'"
      using "1.prems" by (cases w) simp_all
    have "0 < w'"
      using False "1.prems" w by (cases w') simp_all
    moreover have "v div 16 < 16 ^ w'"
      using "1.prems" w by (simp add: less_mult_imp_div_less mult.commute)
    ultimately have "length (hex_digits (v div 16)) \<le> w'"
      using "1.IH" False by simp
    then show ?thesis
      using False w by (subst hex_digits.simps) simp
  qed
qed

lemma hex_digits_hd: "0 < v \<Longrightarrow> hd (hex_digits v) \<noteq> CHR ''0''"
proof (induction v rule: hex_digits.induct)
  case (1 v)
  show ?case
  proof (cases "v < 16")
    case True
    then show ?thesis
      using "1.prems" by (subst hex_digits.simps) (simp add: hex_digit_props)
  next
    case False
    then have "0 < v div 16"
      by (simp add: div_greater_zero_iff)
    then have "hd (hex_digits (v div 16)) \<noteq> CHR ''0''"
      using "1.IH" False by simp
    then show ?thesis
      using False by (subst hex_digits.simps) (simp add: hex_digits_nonempty)
  qed
qed

lemma width_positive: "0 < n \<Longrightarrow> 0 < \<lceil>real_of_int n / 4\<rceil>"
  by simp

lemma width_covers: "n \<le> 4 * \<lceil>real_of_int n / 4\<rceil>"
proof -
  have "real_of_int n / 4 \<le> of_int \<lceil>real_of_int n / 4\<rceil>"
    by (rule le_of_int_ceiling)
  then have "real_of_int n \<le> 4 * real_of_int \<lceil>real_of_int n / 4\<rceil>"
    by linarith
  then have "real_of_int n \<le> real_of_int (4 * \<lceil>real_of_int n / 4\<rceil>)"
    by simp
  then show ?thesis
    by (simp only: of_int_le_iff)
qed

lemma value_fits_width:
  assumes "0 < n" "int (length t) \<le> n" "(v::nat) < 2 ^ length t"
  shows "v < 16 ^ nat \<lceil>real_of_int n / 4\<rceil>"
proof -
  have "int (length t) \<le> 4 * \<lceil>real_of_int n / 4\<rceil>"
    using assms(2) width_covers [of n] by linarith
  then have "length t \<le> 4 * nat \<lceil>real_of_int n / 4\<rceil>"
    by linarith
  then have "(2::nat) ^ length t \<le> 2 ^ (4 * nat \<lceil>real_of_int n / 4\<rceil>)"
    by (rule power_increasing) simp
  also have "\<dots> = 16 ^ nat \<lceil>real_of_int n / 4\<rceil>"
    by (simp add: power_mult)
  finally show ?thesis
    using assms(3) by simp
qed

lemma format_0x_props:
  assumes "0 < w"
  shows "\<exists>d. format_0x w v = Inr d
     \<and> positional 16 (map hex_digit_value d) = v
     \<and> list_all is_hex_digit d
     \<and> nat w \<le> length d
     \<and> (nat w < length d \<longrightarrow> hd d \<noteq> CHR ''0'')
     \<and> (v < 16 ^ nat w \<longrightarrow> length d = nat w)"
proof -
  let ?h = "hex_digits v"
  let ?d = "replicate (nat w - length ?h) CHR ''0'' @ ?h"
  have zero: "hex_digit_value CHR ''0'' = 0" "is_hex_digit CHR ''0''"
    by (simp_all add: hex_digit_value_def is_hex_digit_def)
  have "format_0x w v = Inr ?d"
    using assms by (simp add: format_0x_def)
  moreover have "positional 16 (map hex_digit_value ?d) = v"
    by (simp add: zero positional_zeros positional_hex_digits)
  moreover have "list_all is_hex_digit ?d"
    using hex_digits_chars [of v] by (auto simp add: zero list_all_iff)
  moreover have "nat w \<le> length ?d"
    by simp
  moreover have "hd ?d \<noteq> CHR ''0''" if "nat w < length ?d"
  proof -
    from that have long: "nat w < length ?h" by simp
    then have "\<not> length ?h \<le> 1" using assms by linarith
    moreover have "hex_digits 0 = [hex_digit 0]"
      by (subst hex_digits.simps) simp
    ultimately have "0 < v"
      by (cases "v = 0") simp_all
    then show ?thesis using long by (simp add: hex_digits_hd)
  qed
  moreover have "length ?d = nat w" if "v < 16 ^ nat w"
  proof -
    have "length ?h \<le> nat w"
      using assms that by (intro hex_digits_length) simp_all
    then show ?thesis by simp
  qed
  ultimately show ?thesis by blast
qed

lemma collapse_110: "collapse [(''110'', c)] 3 = Inr (''110'', ''3'')"
  by (simp add: collapse_def most_frequent_bitstring_def to_hash_hex_def int_base2_def
      is_binary_digit_def format_0x_def hex_digits.simps hex_digit_def)

section \<open>The first item with the greatest count\<close>

lemma max_by_count_split:
  "\<exists>pre post. best # rest = pre @ max_by_count best rest # post
     \<and> (\<forall>kv\<in>set pre. snd kv < snd (max_by_count best rest))
     \<and> (\<forall>kv\<in>set post. snd kv \<le> snd (max_by_count best rest))"
proof (induction rest arbitrary: best)
  case Nil
  show ?case by (intro exI [of _ "[]"]) simp
next
  case (Cons kv rest)
  define b where "b = (if snd kv > snd best then kv else best)"
  define r where "r = max_by_count b rest"
  obtain pre post where split: "b # rest = pre @ r # post"
      and pre: "\<forall>x\<in>set pre. snd x < snd r" and post: "\<forall>x\<in>set post. snd x \<le> snd r"
    using Cons.IH [of b] unfolding r_def by blast
  have r: "max_by_count best (kv # rest) = r"
    by (simp add: r_def b_def)
  have b_le: "snd b \<le> snd r"
  proof (cases pre)
    case Nil
    then have "b = r" using split by simp
    then show ?thesis by simp
  next
    case (Cons p ps)
    then have "b \<in> set pre" using split by simp
    then show ?thesis using pre by fastforce
  qed
  show ?case
  proof (cases "snd kv > snd best")
    case True
    then have "b = kv" by (simp add: b_def)
    then have "best # kv # rest = (best # pre) @ r # post"
      using split by simp
    moreover have "\<forall>x\<in>set (best # pre). snd x < snd r"
      using True pre b_le \<open>b = kv\<close> by auto
    ultimately show ?thesis
      unfolding r using post by blast
  next
    case False
    then have "b = best" by (simp add: b_def)
    show ?thesis
    proof (cases pre)
      case Nil
      then have "best # kv # rest = [] @ r # (kv # post)"
        using split \<open>b = best\<close> by simp
      moreover have "\<forall>x\<in>set (kv # post). snd x \<le> snd r"
        using False post b_le \<open>b = best\<close> by auto
      moreover have "\<forall>x\<in>set []. snd x < snd r"
        by simp
      ultimately show ?thesis
        unfolding r by blast
    next
      case (Cons p ps)
      then have p: "p = best" and rest: "rest = ps @ r # post"
        using split \<open>b = best\<close> by simp_all
      then have "best # kv # rest = (best # kv # ps) @ r # post"
        by simp
      moreover have "\<forall>x\<in>set (best # kv # ps). snd x < snd r"
        using False pre Cons p by auto
      ultimately show ?thesis
        unfolding r using post by blast
    qed
  qed
qed

lemma find_first:
  "\<forall>x\<in>set pre. \<not> P x \<Longrightarrow> P r \<Longrightarrow> find P (pre @ r # post) = Some r"
  by (induction pre) simp_all

section \<open>The digest of a bit-pattern\<close>

text \<open>
  Claim C1. For a non-empty bit-pattern (a string of the digits 0 and 1) and a positive
  qubit count \<open>n\<close>, \<^verbatim>\<open>to_hash_hex\<close> raises nothing and returns a string \<open>d\<close> of lowercase
  hexadecimal digits that denotes the number the reversed bit-pattern denotes in binary.
  The string is padded with zeros to \<open>ceil (n / 4)\<close> digits: it has at least that many
  digits, it starts with no zero when it has more, and it has exactly that many when the
  bit-pattern has at most \<open>n\<close> characters. Collapsing a distribution whose only key is
  \<^verbatim>\<open>110\<close> at three qubits gives the digest \<^verbatim>\<open>3\<close>.
\<close>

theorem digest_of_bit_pattern:
  assumes "bitstr \<noteq> []" and "list_all is_binary_digit bitstr" and "0 < n"
  shows "\<exists>d. to_hash_hex bitstr n = Inr d
     \<and> positional 16 (map hex_digit_value d) = positional 2 (map binary_digit_value (rev bitstr))
     \<and> list_all is_hex_digit d
     \<and> nat \<lceil>real_of_int n / 4\<rceil> \<le> length d
     \<and> (nat \<lceil>real_of_int n / 4\<rceil> < length d \<longrightarrow> hd d \<noteq> CHR ''0'')
     \<and> (int (length bitstr) \<le> n \<longrightarrow> length d = nat \<lceil>real_of_int n / 4\<rceil>)
     \<and> collapse [(''110'', c)] 3 = Inr (''110'', ''3'')"
proof -
  let ?v = "positional 2 (map binary_digit_value (rev bitstr))"
  let ?w = "\<lceil>real_of_int n / 4\<rceil>"
  have parse: "int_base2 (rev bitstr) = Inr ?v"
    using assms(1,2) by (simp add: int_base2_def foldl_binary)
  then have eq: "to_hash_hex bitstr n = format_0x ?w ?v"
    using assms(1) by (simp add: to_hash_hex_def)
  have "0 < ?w"
    using assms(3) by (rule width_positive)
  then obtain d where d: "format_0x ?w ?v = Inr d"
      "positional 16 (map hex_digit_value d) = ?v" "list_all is_hex_digit d"
      "nat ?w \<le> length d" "nat ?w < length d \<longrightarrow> hd d \<noteq> CHR ''0''"
      "?v < 16 ^ nat ?w \<longrightarrow> length d = nat ?w"
    using format_0x_props [of ?w ?v] by blast
  have "length d = nat ?w" if "int (length bitstr) \<le> n"
  proof -
    have "?v < 2 ^ length (rev bitstr)"
      by (rule positional_binary_less)
    then have "?v < 16 ^ nat ?w"
      using value_fits_width [of n "rev bitstr" ?v] assms(3) that by simp
    then show ?thesis using d(6) by simp
  qed
  then show ?thesis
    using eq d(1-5) collapse_110 by auto
qed

theorem digest_of_bit_pattern_witness:
  "''1111000011'' \<noteq> [] \<and> list_all is_binary_digit ''1111000011'' \<and> (0::int) < 10
   \<and> to_hash_hex ''1111000011'' 10 = Inr ''30f''
   \<and> (\<exists>d. to_hash_hex ''1111000011'' 10 = Inr d
        \<and> positional 16 (map hex_digit_value d) =
            positional 2 (map binary_digit_value (rev ''1111000011''))
        \<and> length d = 3)"
proof -
  have a: "''1111000011'' \<noteq> []" by simp
  have b: "list_all is_binary_digit ''1111000011''" by (simp add: is_binary_digit_def)
  have c: "(0::int) < 10" by simp
  have e: "to_hash_hex ''1111000011'' 10 = Inr ''30f''"
    by (simp add: to_hash_hex_def int_base2_def is_binary_digit_def format_0x_def
        hex_digits.simps hex_digit_def)
  show ?thesis
    using digest_of_bit_pattern [OF a b c, of 1] a b c e by auto
qed

section \<open>Message encoding\<close>

text \<open>
  Claim C2. For every message and every qubit count \<open>n\<close>, the encoder reads the message
  bits byte by byte in the original order and inside a byte from the least significant
  bit to the most significant one, appends \<open>X i\<close> exactly for the indices \<open>i < n\<close> of the
  bits that are 1, appends nothing for a bit that is 0, and drops every bit from index
  \<open>n\<close> on without an error. This holds for \<^verbatim>\<open>encode_message\<close> of the notebook script and
  for the encoding loop of \<^verbatim>\<open>build_random_circuit\<close>, whose other gates are no \<open>X\<close> gates.
  So the byte \<^verbatim>\<open>01\<close> at 8 qubits sets exactly qubit 0, the byte \<^verbatim>\<open>80\<close> at 8 qubits sets
  exactly qubit 7, and the bytes \<^verbatim>\<open>ff ff\<close> at 4 qubits set exactly the qubits 0 to 3.
\<close>

theorem encoder_sets_one_bits:
  "encode_message msg n = map (\<lambda>i. X (int i)) (one_positions msg n)
   \<and> fst (build_random_circuit numpy h n depth seed msg) =
       map (\<lambda>i. X (int i)) (one_positions msg n) @ fst (build_random_circuit numpy h n depth seed [])
   \<and> filter is_X (fst (build_random_circuit numpy h n depth seed [])) = []
   \<and> encode_message [0x01] 8 = [X 0]
   \<and> encode_message [0x80] 8 = [X 7]
   \<and> encode_message [0xFF, 0xFF] 4 = [X 0, X 1, X 2, X 3]
   \<and> filter is_X (fst (build_random_circuit numpy h 8 depth seed [0x01])) = [X 0]
   \<and> filter is_X (fst (build_random_circuit numpy h 8 depth seed [0x80])) = [X 7]
   \<and> filter is_X (fst (build_random_circuit numpy h 4 depth seed [0xFF, 0xFF])) = [X 0, X 1, X 2, X 3]"
proof -
  have empty: "filter is_X (fst (build_random_circuit numpy h m depth seed [])) = []" for m
    by (simp add: build_empty_message filter_X_layer_ops)
  have X_only: "filter is_X (map (\<lambda>i. X (int i)) ps) = map (\<lambda>i. X (int i)) ps" for ps
    by (induction ps) simp_all
  have ibm: "filter is_X (fst (build_random_circuit numpy h m depth seed msg')) =
               map (\<lambda>i. X (int i)) (one_positions msg' m)" for m msg'
    by (simp add: build_split [of numpy h m depth seed msg' h] empty X_only one_positions_Nil)
  show ?thesis
    by (simp add: encode_message_eq build_split [of numpy h n depth seed msg h] empty ibm ex1 ex2 ex3
        one_positions_Nil)
qed

section \<open>Order of the random angles\<close>

text \<open>
  Claim C3, as the specification states it: in every layer and for each qubit in
  ascending order, two values are drawn, the first is the angle of the Z rotation and
  the second the angle of the X rotation. The source draws \<^verbatim>\<open>theta\<close> first and \<^verbatim>\<open>phi\<close>
  second and appends \<^verbatim>\<open>rz(phi, q)\<close>, then \<^verbatim>\<open>rx(theta, q)\<close>: the first value drawn is the
  angle of the X rotation. With one qubit, one layer and a sequence whose first two
  values are \<open>1/2\<close> and \<open>1/3\<close>, the circuit is not the one the claim describes.
\<close>

theorem first_draw_is_not_the_z_angle:
  "fst (nb_build_random_circuit sample_numpy empty_heap 1 1 0) \<noteq>
     [RZ (sample_numpy 0 0 * 2 * pi) 0, RX (sample_numpy 0 1 * 2 * pi) 0]"
  by (simp add: nb_build_fst entangle_def py_range_def sample_numpy_def)

text \<open>
  Claim C3, amended. In every layer \<open>l\<close> and for each qubit \<open>q\<close> in ascending order, two
  values are drawn in sequence, the values number \<open>2 (l n + q)\<close> and \<open>2 (l n + q) + 1\<close> of
  the seeded sequence. The first is the angle of the X rotation and the second the angle
  of the Z rotation, each multiplied by \<open>2 pi\<close>; the gates \<open>RZ\<close> with the second value,
  then \<open>RX\<close> with the first value, are appended in that order, and the entangling gates
  of the layer follow the rotations of all qubits. The circuit of the IBM script is the
  encoding prefix, these layers and the measurement. When the library returns values in
  the interval from 0 up to but not including 1, every angle lies in the interval from 0
  up to but not including \<open>2 pi\<close>. The angles are real numbers here, floats in the source.
\<close>

theorem rotation_draw_order:
  "fst (nb_build_random_circuit numpy h n depth seed) =
     concat (map (\<lambda>l.
         concat (map (\<lambda>q. [RZ (numpy seed (2 * (l * nat n + q) + 1) * 2 * pi) (int q),
                            RX (numpy seed (2 * (l * nat n + q)) * 2 * pi) (int q)]) [0..<nat n])
         @ entangle n [])
       [0..<nat depth])
   \<and> fst (build_random_circuit numpy h n depth seed msg) =
       snd (encode_bytes n msg (0, [])) @ fst (nb_build_random_circuit numpy h n depth seed)
         @ [Measure (py_range 0 n 1) (py_range 0 n 1)]
   \<and> ((\<forall>k. 0 \<le> numpy seed k \<and> numpy seed k < 1) \<longrightarrow>
        list_all (\<lambda>a. 0 \<le> a \<and> a < 2 * pi)
          (concat (map angles (fst (nb_build_random_circuit numpy h n depth seed)))))"
proof (intro conjI impI)
  show "fst (nb_build_random_circuit numpy h n depth seed) =
     concat (map (\<lambda>l.
         concat (map (\<lambda>q. [RZ (numpy seed (2 * (l * nat n + q) + 1) * 2 * pi) (int q),
                            RX (numpy seed (2 * (l * nat n + q)) * 2 * pi) (int q)]) [0..<nat n])
         @ entangle n [])
       [0..<nat depth])"
    by (simp add: nb_build_fst layer_ops_closed)
  show "fst (build_random_circuit numpy h n depth seed msg) =
       snd (encode_bytes n msg (0, [])) @ fst (nb_build_random_circuit numpy h n depth seed)
         @ [Measure (py_range 0 n 1) (py_range 0 n 1)]"
    by (simp add: build_fst nb_build_fst py_range_step1)
  assume "\<forall>k. 0 \<le> numpy seed k \<and> numpy seed k < 1"
  then show "list_all (\<lambda>a. 0 \<le> a \<and> a < 2 * pi)
          (concat (map angles (fst (nb_build_random_circuit numpy h n depth seed))))"
    by (simp add: nb_build_fst angles_layer_ops)
qed

theorem rotation_draw_order_witness:
  "(\<forall>k. 0 \<le> sample_numpy 7 k \<and> sample_numpy 7 k < 1)
   \<and> fst (nb_build_random_circuit sample_numpy empty_heap 2 1 7) =
       [RZ (1 / 3 * 2 * pi) 0, RX (1 / 2 * 2 * pi) 0,
        RZ (1 / 5 * 2 * pi) 1, RX (1 / 4 * 2 * pi) 1, CX 0 1]
   \<and> list_all (\<lambda>a. 0 \<le> a \<and> a < 2 * pi)
        (concat (map angles (fst (nb_build_random_circuit sample_numpy empty_heap 2 1 7))))"
  using rotation_draw_order [of sample_numpy empty_heap 2 1 7 "[]"] sample_range [of 7]
  by (simp add: entangle_2 sample_numpy_def upt_rec)

section \<open>Entangling pattern of two and three qubits\<close>

text \<open>
  Claim C4, as the specification states it: with three qubits and one layer the circuit
  has the even pair \<open>(0, 1)\<close> and the wrap-around pair \<open>(2, 0)\<close> but no odd pair. The
  second loop runs over \<^verbatim>\<open>range(1, n_qubits - 1, 2)\<close>, which is \<open>[1]\<close> for three qubits,
  so the odd pair \<open>(1, 2)\<close> is there.
\<close>

theorem three_qubits_have_odd_pair: "CX 1 2 \<in> set (fst (nb_build_random_circuit sample_numpy empty_heap 3 1 0))"
  by (simp add: nb_build_fst entangle_3)

text \<open>
  Claim C4, amended. For every seed, the circuit for two qubits and one layer has
  exactly one entangling gate, the even pair \<open>(0, 1)\<close>, and no wrap-around; the circuit
  for three qubits and one layer has exactly the even pair \<open>(0, 1)\<close>, the odd pair
  \<open>(1, 2)\<close> and the wrap-around pair \<open>(2, 0)\<close>, in this order. This holds for the
  generator of the notebook script and for \<^verbatim>\<open>build_random_circuit\<close> of the IBM script
  with any message.
\<close>

theorem entangling_pattern_small:
  "filter is_CX (fst (nb_build_random_circuit numpy h 2 1 seed)) = [CX 0 1]
   \<and> filter is_CX (fst (nb_build_random_circuit numpy h 3 1 seed)) = [CX 0 1, CX 1 2, CX 2 0]
   \<and> filter is_CX (fst (build_random_circuit numpy h 2 1 seed msg)) = [CX 0 1]
   \<and> filter is_CX (fst (build_random_circuit numpy h 3 1 seed msg)) = [CX 0 1, CX 1 2, CX 2 0]"
  by (simp add: build_fst nb_build_fst encode_bytes_eq filter_CX_positions filter_CX_rot_ops
      entangle_2 entangle_3)

section \<open>The most frequent bit-pattern\<close>

text \<open>
  Claim C5, as the specification states it: among several bit-patterns tied for the
  greatest count, the lexicographically smallest is selected. \<^verbatim>\<open>max\<close> keeps the first
  item of the dictionary with the greatest count. In the dictionary with the items
  \<^verbatim>\<open>"1": 5\<close> and \<^verbatim>\<open>"0": 5\<close>, in this order, both patterns are tied; \<^verbatim>\<open>"1"\<close> is selected and
  \<^verbatim>\<open>"0"\<close> is lexicographically smaller.
\<close>

theorem tie_goes_to_first_item:
  "most_frequent_bitstring [(''1'', 5), (''0'', 5)] = ''1'' \<and> (''0'' :: string) < ''1''"
  by (simp add: most_frequent_bitstring_def)

text \<open>
  Claim C5, amended. \<^verbatim>\<open>most_frequent_bitstring\<close> selects a bit-pattern with the greatest
  count; among several bit-patterns tied for the greatest count it selects the one that
  comes first in the iteration order of the dictionary. The result is the key of the
  first item whose count is at least every count, and the empty string for the empty
  dictionary; it is a function of the dictionary with its order, and so is the digest.
\<close>

theorem most_frequent_is_first_maximum:
  "most_frequent_bitstring counts =
     (case find (\<lambda>kv. list_all (\<lambda>kv'. snd kv' \<le> snd kv) counts) counts of
        None \<Rightarrow> ''''
      | Some kv \<Rightarrow> fst kv)"
proof (cases counts)
  case Nil
  then show ?thesis by (simp add: most_frequent_bitstring_def)
next
  case (Cons best rest)
  let ?r = "max_by_count best rest"
  let ?P = "\<lambda>kv. list_all (\<lambda>kv'. snd kv' \<le> snd kv) counts"
  obtain pre post where split: "counts = pre @ ?r # post"
      and pre: "\<forall>x\<in>set pre. snd x < snd ?r" and post: "\<forall>x\<in>set post. snd x \<le> snd ?r"
    using max_by_count_split [of best rest] Cons by blast
  have "?P ?r"
    using pre post by (subst split) (auto simp add: list_all_iff)
  moreover have "\<forall>x\<in>set pre. \<not> ?P x"
    using pre by (subst split) (auto simp add: list_all_iff)
  ultimately have "find ?P (pre @ ?r # post) = Some ?r"
    by (rule find_first [rotated])
  then have "find ?P counts = Some ?r"
    using split by simp
  then show ?thesis
    using Cons by (simp add: most_frequent_bitstring_def)
qed

section \<open>Failure of the provider path\<close>

text \<open>
  The call of \<^verbatim>\<open>run_on_ibm_runtime\<close> stands in a \<^verbatim>\<open>try\<close> block: when it raises, a line is
  printed, \<^verbatim>\<open>used\<close> stays \<^verbatim>\<open>False\<close> and \<^verbatim>\<open>main\<close> goes on to the Aer simulator when the
  provider package is absent.
\<close>

lemma runtime_failure_is_caught:
  assumes "backend_name \<noteq> []" and "runtime_mode \<in> set [''auto'', ''cloud'']"
    and "runtime_available env" and "backend_mode env = None" and "aer_available env"
    and "runtime_job env qc backend_name shots resilience = Inl e"
    and "aer_job env qc shots = Inr counts"
  shows "main_execute env qc backend_name runtime_mode shots resilience =
           ([Runtime_failed e, Provider_not_available, Warning_using_aer],
            Inr (counts, ''Aer simulator''))"
  using assms
  by (auto simp add: main_execute_def try_runtime_def try_provider_def last_resort_def
      run_on_ibm_runtime_def run_on_aer_def)

text \<open>
  The call of \<^verbatim>\<open>run_on_ibm_provider\<close> stands in no \<^verbatim>\<open>try\<close> block: when it raises, the
  exception leaves \<^verbatim>\<open>main\<close>.
\<close>

lemma provider_failure_propagates:
  assumes "backend_name \<noteq> []"
    and "try_runtime env qc backend_name runtime_mode shots resilience = (out, None)"
    and "runtime_mode \<in> set [''auto'', ''provider'', ''cloud'']"
    and "backend_mode env = Some ''provider''"
    and "provider_job env qc backend_name shots = Inl e"
  shows "main_execute env qc backend_name runtime_mode shots resilience = (out, Inl e)"
  using assms
  by (simp add: main_execute_def try_provider_def run_on_ibm_provider_def)

text \<open>
  Claim C6 says that a failure of the remote-provider attempt is caught and that control
  falls through to the local fallback. With the backend \<^verbatim>\<open>ibm_osaka\<close>, the mode
  \<^verbatim>\<open>provider\<close>, a provider job that raises and an Aer simulator that would answer, the
  exception of the provider job is the outcome of \<^verbatim>\<open>main\<close>; nothing is printed and the
  simulator is not called.
\<close>

theorem provider_failure_reaches_caller:
  "main_execute provider_down qc ''ibm_osaka'' ''provider'' 2048 0 =
     ([], Inl (RemoteError ''no account''))
   \<and> run_on_aer provider_down qc 2048 = Inr [(''0'', 2048)]"
  by (simp add: main_execute_def try_runtime_def try_provider_def run_on_ibm_provider_def
      run_on_aer_def provider_down_def)

section \<open>Determinism of the generator\<close>

text \<open>
  Claim C8. The generated gate sequence is a function of the qubit count, the depth and
  the seed alone. Every call seeds a generator object of its own, so the gates do not
  depend on the heap the call starts from: two calls with the same arguments return the
  same gates from any two heaps, in particular when the second call runs on the heap the
  first one left behind. This holds for the generator of the notebook script and, with
  the message as a further argument, for \<^verbatim>\<open>build_random_circuit\<close> of the IBM script.
\<close>

theorem generator_deterministic:
  "fst (nb_build_random_circuit numpy h n depth seed) =
     fst (nb_build_random_circuit numpy h' n depth seed)
   \<and> fst (build_random_circuit numpy h n depth seed msg) =
       fst (build_random_circuit numpy h' n depth seed msg)
   \<and> fst (nb_build_random_circuit numpy (snd (nb_build_random_circuit numpy h n depth seed))
            n depth seed) =
       fst (nb_build_random_circuit numpy h n depth seed)
   \<and> fst (build_random_circuit numpy (snd (build_random_circuit numpy h n depth seed msg))
            n depth seed msg) =
       fst (build_random_circuit numpy h n depth seed msg)"
  by (simp add: build_fst nb_build_fst)

section \<open>Qubit indices\<close>

text \<open>
  Claim C9. Every gate of a constructed circuit refers only to indices from 0 to
  \<open>n - 1\<close>, \<open>n\<close> the qubit count: the \<open>X\<close>, \<open>RZ\<close>, \<open>RX\<close> and \<open>CX\<close> gates and the final
  measurement of \<^verbatim>\<open>build_random_circuit\<close>, the gates of the notebook's generator and
  the gates of \<^verbatim>\<open>encode_message\<close>, for every depth, seed and message.
\<close>

theorem qubit_indices_in_range:
  "list_all (\<lambda>q. 0 \<le> q \<and> q < n)
     (concat (map gate_qubits (fst (build_random_circuit numpy h n depth seed msg))))
   \<and> list_all (\<lambda>q. 0 \<le> q \<and> q < n)
       (concat (map gate_qubits (fst (nb_build_random_circuit numpy h n depth seed))))
   \<and> list_all (\<lambda>q. 0 \<le> q \<and> q < n) (concat (map gate_qubits (encode_message msg n)))"
  using qubits_positions [of n msg]
  by (simp add: build_fst nb_build_fst encode_bytes_eq encode_message_eq qubits_layer_ops
      qubits_upto)

section \<open>The layers do not depend on the message\<close>

text \<open>
  Claim C10. For every qubit count, depth and seed, the circuit built for a message is
  the encoding prefix of that message, which holds \<open>X\<close> gates only, followed by the
  circuit built for the empty message, which holds no \<open>X\<close> gate and is the output of the
  notebook's generator followed by the measurement. The rotation and entangling gates
  after the prefix are therefore the same for any two messages: the generator is read
  only in the layer loop, after the encoding.
\<close>

theorem layers_independent_of_message:
  "fst (build_random_circuit numpy h n depth seed msg) =
     snd (encode_bytes n msg (0, [])) @ fst (build_random_circuit numpy h' n depth seed [])
   \<and> filter (\<lambda>g. \<not> is_X g) (snd (encode_bytes n msg (0, []))) = []
   \<and> filter is_X (fst (build_random_circuit numpy h' n depth seed [])) = []
   \<and> fst (build_random_circuit numpy h' n depth seed []) =
       fst (nb_build_random_circuit numpy h'' n depth seed) @ [Measure (py_range 0 n 1) (py_range 0 n 1)]
   \<and> filter (\<lambda>g. \<not> is_X g) (fst (build_random_circuit numpy h n depth seed msg)) =
       filter (\<lambda>g. \<not> is_X g) (fst (build_random_circuit numpy h' n depth seed msg'))"
  by (simp add: build_fst nb_build_fst encode_bytes_eq filter_not_X_positions filter_X_layer_ops
      py_range_step1)

section \<open>The empty distribution\<close>

text \<open>
  Claim C7. For every qubit count, collapsing the empty distribution raises nothing and
  returns the empty bit-pattern together with the empty digest.
\<close>

theorem collapse_empty: "collapse [] n = Inr ('''', '''')"
  by (simp add: collapse_def most_frequent_bitstring_def to_hash_hex_def)

end
